theory Spec2Isabelle
  imports Main "HOL-Library.Word"
begin

unbundle bit_operations_syntax

section \<open>The segregated free-list allocator of \<^verbatim>\<open>main.c\<close>\<close>

text \<open>
  The allocator keeps one intrusive singly-linked free list per power-of-two size class
  (\<^verbatim>\<open>mem_manager.free_list\<close>), a per-class counter of seeded blocks
  (\<^verbatim>\<open>mem_manager.preallocated_counts\<close>), a size-class resolver
  (\<^verbatim>\<open>get_chunk_index\<close>), a cyclic seeder (\<^verbatim>\<open>preallocate_memory\<close>) and the two
  operations \<^verbatim>\<open>mm_malloc\<close> and \<^verbatim>\<open>mm_free\<close>.

  \<^verbatim>\<open>size_t\<close> and pointers are 64-bit words; \<^verbatim>\<open>NULL\<close> is the word 0. Memory is a map
  from addresses to bytes; the \<^verbatim>\<open>next\<close> field of a block is the 8 bytes at the address
  of the block. Behaviour that C
  leaves undefined (a compiler builtin applied to 0, a shift by the full width, an array
  subscript past the end of the array) and the call \<^verbatim>\<open>exit(1)\<close> are values of the type
  \<open>error\<close>.
\<close>

subsection \<open>Constants and types\<close>

type_synonym size_t = "64 word"
type_synonym ptr = "64 word"
type_synonym byte = "8 word"

datatype error =
    Undefined_builtin   \<comment> \<open>\<^verbatim>\<open>__builtin_clzll(0)\<close> or \<^verbatim>\<open>__builtin_ctzll(0)\<close>\<close>
  | Undefined_shift     \<comment> \<open>a shift of a 64-bit value by 64 or more\<close>
  | Out_of_bounds       \<comment> \<open>an array subscript outside the array\<close>
  | Exit_failure        \<comment> \<open>\<^verbatim>\<open>exit(1)\<close> after a failed \<^verbatim>\<open>malloc\<close> while seeding\<close>

definition MIN_CHUNK_SIZE :: size_t where
  "MIN_CHUNK_SIZE = 4"

definition MAX_CHUNK_SIZE :: size_t where
  "MAX_CHUNK_SIZE = 65536"

definition CHUNK_CLASSES :: nat where
  "CHUNK_CLASSES = 14"

text \<open>The initialiser of \<^verbatim>\<open>chunk_sizes[]\<close> has fifteen entries.\<close>

definition chunk_sizes :: "size_t list" where
  "chunk_sizes = [4, 8, 16, 32, 64, 128, 256, 512, 1024, 2048, 4096, 8192, 16384, 32768, 65536]"

subsection \<open>Compiler builtins\<close>

text \<open>
  \<^verbatim>\<open>__builtin_clzll(x)\<close> is the number of leading 0-bits of \<open>x\<close>, counted from the most
  significant bit; \<^verbatim>\<open>__builtin_ctzll(x)\<close> is the number of trailing 0-bits, counted from
  the least significant bit. Both are undefined for \<open>x = 0\<close>.
\<close>

primrec leading_zeros :: "nat \<Rightarrow> size_t \<Rightarrow> nat" where
  "leading_zeros 0 x = 0"
| "leading_zeros (Suc n) x = (if bit x n then 0 else Suc (leading_zeros n x))"

primrec trailing_zeros :: "nat \<Rightarrow> nat \<Rightarrow> size_t \<Rightarrow> nat" where
  "trailing_zeros 0 k x = 0"
| "trailing_zeros (Suc n) k x = (if bit x k then 0 else Suc (trailing_zeros n (Suc k) x))"

definition clzll :: "size_t \<Rightarrow> error + nat" where
  "clzll x = (if x = 0 then Inl Undefined_builtin else Inr (leading_zeros 64 x))"

definition ctzll :: "size_t \<Rightarrow> error + nat" where
  "ctzll x = (if x = 0 then Inl Undefined_builtin else Inr (trailing_zeros 64 0 x))"

text \<open>\<^verbatim>\<open>x << n\<close> on a 64-bit operand.\<close>

definition shift_left :: "size_t \<Rightarrow> nat \<Rightarrow> error + size_t" where
  "shift_left x n = (if 64 \<le> n then Inl Undefined_shift else Inr (push_bit n x))"

subsection \<open>The size-class resolver\<close>

text \<open>
  \<^verbatim>\<open>
  size_t get_chunk_index(size_t size) {
      if (size == 0) return 0;
      if (size & (size - 1)) {
          size = 1ULL << (64 - __builtin_clzll(size));
      }
      return __builtin_ctzll(size / 4);
  }
  \<close>
\<close>

definition get_chunk_index :: "size_t \<Rightarrow> error + nat" where
  "get_chunk_index sz =
     (if sz = 0 then Inr 0
      else case (if sz AND (sz - 1) \<noteq> 0
                 then (case clzll sz of
                         Inl e \<Rightarrow> Inl e
                       | Inr n \<Rightarrow> shift_left 1 (64 - n))
                 else Inr sz) of
             Inl e \<Rightarrow> Inl e
           | Inr sz2 \<Rightarrow> ctzll (sz2 div 4))"

subsection \<open>Allocator state, block links and the general-purpose allocator\<close>

text \<open>
  \<^verbatim>\<open>MemoryManager\<close> holds the two arrays. An array is a list; a subscript is checked
  against the length of the list, which is \<open>CHUNK_CLASSES\<close> in the initial state and is
  never changed by any operation.
\<close>

record MemoryManager =
  free_list :: "ptr list"
  preallocated_counts :: "size_t list"

text \<open>
  The general-purpose allocator (\<^verbatim>\<open>malloc\<close> of the C library) is outside the program.
  It is modelled by the pointers it is going to return to the next calls, in order
  (\<open>replies\<close>; a \<open>0\<close> entry is a failed call, and once the list is used up every call
  fails), and by the log of the sizes it has been asked for (\<open>requests\<close>).
\<close>

record backing =
  replies :: "ptr list"
  requests :: "size_t list"

definition sys_malloc :: "size_t \<Rightarrow> backing \<Rightarrow> ptr \<times> backing" where
  "sys_malloc n b =
     (case replies b of
        [] \<Rightarrow> (0, b\<lparr>requests := requests b @ [n]\<rparr>)
      | p # ps \<Rightarrow> (p, b\<lparr>replies := ps, requests := requests b @ [n]\<rparr>))"

text \<open>
  \<^verbatim>\<open>FreeBlock\<close> has the single member \<^verbatim>\<open>next\<close>, a pointer, at offset 0. The assignment
  \<^verbatim>\<open>block->next = v\<close> writes the 8 bytes of \<open>v\<close> at the addresses \<open>block\<close> to
  \<open>block + 7\<close>, least significant byte first, whatever the size of the block is and
  whatever else lies there; reading \<^verbatim>\<open>block->next\<close> puts the 8 bytes at these addresses
  together again.
\<close>

definition store_ptr :: "(ptr \<Rightarrow> byte) \<Rightarrow> ptr \<Rightarrow> ptr \<Rightarrow> ptr \<Rightarrow> byte" where
  "store_ptr m p v =
     (\<lambda>a. if a - p < 8 then ucast (drop_bit (8 * unat (a - p)) v) else m a)"

definition load_ptr :: "(ptr \<Rightarrow> byte) \<Rightarrow> ptr \<Rightarrow> ptr" where
  "load_ptr m p =
     ucast (m p) OR push_bit 8 (ucast (m (p + 1))) OR push_bit 16 (ucast (m (p + 2)))
     OR push_bit 24 (ucast (m (p + 3))) OR push_bit 32 (ucast (m (p + 4)))
     OR push_bit 40 (ucast (m (p + 5))) OR push_bit 48 (ucast (m (p + 6)))
     OR push_bit 56 (ucast (m (p + 7)))"

text \<open>
  The whole program state: the global \<^verbatim>\<open>mem_manager\<close>, the memory and the
  general-purpose allocator. \<open>block_next w block\<close> is \<^verbatim>\<open>block->next\<close> in the state \<open>w\<close>.
  The memory changes only through the link stores of \<^verbatim>\<open>preallocate_memory\<close> and
  \<^verbatim>\<open>mm_free\<close>: these are the only writes the program makes to the blocks, and writes
  by the general-purpose allocator or by the caller are not part of the model.
\<close>

record world =
  mem_manager :: MemoryManager
  memory :: "ptr \<Rightarrow> byte"
  gp_alloc :: backing

definition block_next :: "world \<Rightarrow> ptr \<Rightarrow> ptr" where
  "block_next w block = load_ptr (memory w) block"

text \<open>\<^verbatim>\<open>MemoryManager mem_manager = { {NULL}, {0} };\<close>\<close>

definition mem_manager_init :: MemoryManager where
  "mem_manager_init =
     \<lparr>free_list = replicate CHUNK_CLASSES 0, preallocated_counts = replicate CHUNK_CLASSES 0\<rparr>"

subsection \<open>The cyclic seeder\<close>

text \<open>
  One iteration of the loop body of \<^verbatim>\<open>preallocate_memory\<close> for class \<open>i\<close>:
  \<^verbatim>\<open>
  FreeBlock *block = (FreeBlock *)malloc(chunk_sizes[i]);
  if (!block) { printf(...); exit(1); }
  block->next = mem_manager.free_list[i];
  mem_manager.free_list[i] = block;
  mem_manager.preallocated_counts[i]++;
  \<close>
\<close>

definition seed_block :: "nat \<Rightarrow> world \<Rightarrow> error + world" where
  "seed_block i w =
     (if length chunk_sizes \<le> i then Inl Out_of_bounds
      else case sys_malloc (chunk_sizes ! i) (gp_alloc w) of
        (block, g) \<Rightarrow>
          if block = 0 then Inl Exit_failure
          else if length (free_list (mem_manager w)) \<le> i
                  \<or> length (preallocated_counts (mem_manager w)) \<le> i
          then Inl Out_of_bounds
          else Inr (w\<lparr>gp_alloc := g,
                      memory := store_ptr (memory w) block (free_list (mem_manager w) ! i),
                      mem_manager := (mem_manager w)
                        \<lparr>free_list := (free_list (mem_manager w))[i := block],
                         preallocated_counts := (preallocated_counts (mem_manager w))
                           [i := preallocated_counts (mem_manager w) ! i + 1]\<rparr>\<rparr>))"

text \<open>
  \<^verbatim>\<open>
  while (allocated_memory + chunk_sizes[i] <= total_memory*2) {
      ... body ...
      allocated_memory += chunk_sizes[i];
      i = (i + 1) % CHUNK_CLASSES;
  }
  \<close>
  The loop returns \<open>allocated_memory\<close> (the number it prints) and the final state. Every
  iteration that does not leave the program takes one entry of the allocator's \<open>replies\<close>,
  so the loop terminates.
\<close>

function preallocate_loop ::
  "size_t \<Rightarrow> size_t \<Rightarrow> nat \<Rightarrow> world \<Rightarrow> error + (size_t \<times> world)" where
  "preallocate_loop total_memory allocated_memory i w =
     (if length chunk_sizes \<le> i then Inl Out_of_bounds
      else if allocated_memory + chunk_sizes ! i \<le> total_memory * 2 then
        (case seed_block i w of
           Inl e \<Rightarrow> Inl e
         | Inr w' \<Rightarrow>
             preallocate_loop total_memory (allocated_memory + chunk_sizes ! i)
               ((i + 1) mod CHUNK_CLASSES) w')
      else Inr (allocated_memory, w))"
  by pat_completeness auto
termination
  by (relation "measure (\<lambda>(t, a, i, w). length (replies (gp_alloc w)))")
     (auto simp: seed_block_def sys_malloc_def split: if_splits list.splits)

declare preallocate_loop.simps [simp del]

text \<open>\<^verbatim>\<open>size_t allocated_memory = 0; size_t i = 0; while ...\<close>\<close>

definition preallocate_memory :: "size_t \<Rightarrow> world \<Rightarrow> error + (size_t \<times> world)" where
  "preallocate_memory total_memory w = preallocate_loop total_memory 0 0 w"

subsection \<open>Allocation and release\<close>

text \<open>
  \<^verbatim>\<open>
  void *mm_malloc(size_t size) {
      if (size == 0 || size > MAX_CHUNK_SIZE) return NULL;
      size_t index = get_chunk_index(size);
      if (mem_manager.free_list[index]) {
          FreeBlock *block = mem_manager.free_list[index];
          mem_manager.free_list[index] = block->next;
          return (void *)block;
      }
      return malloc(chunk_sizes[index]);
  }
  \<close>
\<close>

definition mm_malloc :: "size_t \<Rightarrow> world \<Rightarrow> error + (ptr \<times> world)" where
  "mm_malloc sz w =
     (if sz = 0 \<or> sz > MAX_CHUNK_SIZE then Inr (0, w)
      else case get_chunk_index sz of
        Inl e \<Rightarrow> Inl e
      | Inr index \<Rightarrow>
          if length (free_list (mem_manager w)) \<le> index then Inl Out_of_bounds
          else if free_list (mem_manager w) ! index \<noteq> 0 then
            (let block = free_list (mem_manager w) ! index
             in Inr (block,
                     w\<lparr>mem_manager := (mem_manager w)
                         \<lparr>free_list := (free_list (mem_manager w))[index := block_next w block]\<rparr>\<rparr>))
          else if length chunk_sizes \<le> index then Inl Out_of_bounds
          else (case sys_malloc (chunk_sizes ! index) (gp_alloc w) of
                  (p, g) \<Rightarrow> Inr (p, w\<lparr>gp_alloc := g\<rparr>)))"

text \<open>
  \<^verbatim>\<open>
  void mm_free(void *ptr, size_t size) {
      if (!ptr || size == 0 || size > MAX_CHUNK_SIZE) return;
      size_t index = get_chunk_index(size);
      FreeBlock *block = (FreeBlock *)ptr;
      block->next = mem_manager.free_list[index];
      mem_manager.free_list[index] = block;
  }
  \<close>
\<close>

definition mm_free :: "ptr \<Rightarrow> size_t \<Rightarrow> world \<Rightarrow> error + world" where
  "mm_free p sz w =
     (if p = 0 \<or> sz = 0 \<or> sz > MAX_CHUNK_SIZE then Inr w
      else case get_chunk_index sz of
        Inl e \<Rightarrow> Inl e
      | Inr index \<Rightarrow>
          if length (free_list (mem_manager w)) \<le> index then Inl Out_of_bounds
          else Inr (w\<lparr>memory := store_ptr (memory w) p (free_list (mem_manager w) ! index),
                      mem_manager := (mem_manager w)
                        \<lparr>free_list := (free_list (mem_manager w))[index := p]\<rparr>\<rparr>))"

text \<open>
  The state at process start: the zero-initialised \<^verbatim>\<open>mem_manager\<close>, with any memory
  contents and any general-purpose allocator.
\<close>

definition initial_world :: "(ptr \<Rightarrow> byte) \<Rightarrow> backing \<Rightarrow> world" where
  "initial_world h g = \<lparr>mem_manager = mem_manager_init, memory = h, gp_alloc = g\<rparr>"

subsection \<open>Sequences of operations\<close>

text \<open>
  The harness drives the allocator with a sequence of calls. A call is a value of
  \<open>request\<close>; \<open>perform\<close> runs one call and \<open>run\<close> a sequence, stopping at the first
  undefined behaviour. The result of a call is the pointer \<^verbatim>\<open>mm_malloc\<close> returned, or
  \<open>None\<close> for \<^verbatim>\<open>mm_free\<close>.
\<close>

datatype request = Allocate size_t | Release ptr size_t

fun perform :: "request \<Rightarrow> world \<Rightarrow> error + (ptr option \<times> world)" where
  "perform (Allocate sz) w =
     (case mm_malloc sz w of Inl e \<Rightarrow> Inl e | Inr (p, w') \<Rightarrow> Inr (Some p, w'))"
| "perform (Release p sz) w =
     (case mm_free p sz w of Inl e \<Rightarrow> Inl e | Inr w' \<Rightarrow> Inr (None, w'))"

fun run :: "request list \<Rightarrow> world \<Rightarrow> error + (ptr option list \<times> world)" where
  "run [] w = Inr ([], w)"
| "run (r # rs) w =
     (case perform r w of
        Inl e \<Rightarrow> Inl e
      | Inr (x, w') \<Rightarrow>
          (case run rs w' of Inl e \<Rightarrow> Inl e | Inr (xs, w'') \<Rightarrow> Inr (x # xs, w'')))"

text \<open>
  The class a call works on: none when the guard of \<^verbatim>\<open>mm_malloc\<close> or \<^verbatim>\<open>mm_free\<close>
  rejects the call, otherwise the index \<^verbatim>\<open>get_chunk_index\<close> computes for its size.
\<close>

definition class_of :: "size_t \<Rightarrow> nat option" where
  "class_of sz =
     (if sz = 0 \<or> sz > MAX_CHUNK_SIZE then None
      else case get_chunk_index sz of Inl e \<Rightarrow> None | Inr index \<Rightarrow> Some index)"


subsection \<open>Auxiliary notions for the seeder\<close>

text \<open>
  The state after \<open>n\<close> iterations of the loop body of \<^verbatim>\<open>preallocate_memory\<close>, the first
  one for class \<open>i\<close> and each following one for the cyclically next class.
\<close>

fun seed_iterations :: "nat \<Rightarrow> nat \<Rightarrow> world \<Rightarrow> error + world" where
  "seed_iterations 0 i w = Inr w"
| "seed_iterations (Suc n) i w =
     (case seed_block i w of
        Inl e \<Rightarrow> Inl e
      | Inr w' \<Rightarrow> seed_iterations n ((i + 1) mod CHUNK_CLASSES) w')"

text \<open>
  The \<^verbatim>\<open>size_t\<close> arithmetic of the loop condition is exact (does not wrap around) when
  the doubled budget stays one largest seeded block below \<open>2^64\<close>, or when the
  general-purpose allocator cannot hand out \<open>2^64\<close> bytes: it has fewer than \<open>2^49 - 1\<close>
  successful calls left, each of at most 32768 bytes. The second condition holds on every
  machine with a 64-bit address space, whatever the budget is.
\<close>

definition seeding_fits :: "size_t \<Rightarrow> backing \<Rightarrow> bool" where
  "seeding_fits total_memory g \<longleftrightarrow>
     unat (total_memory * 2) + 32768 < 2 ^ 64 \<or> (length (replies g) + 1) * 32768 < 2 ^ 64"

subsection \<open>Free lists as sequences of blocks\<close>


text \<open>
  \<open>apart p q\<close>: none of the 8 bytes of the link of the block at \<open>q\<close> is among the 8 bytes
  that \<^verbatim>\<open>p->next = ...\<close> writes, so that a store to the link of \<open>p\<close> leaves the link
  of \<open>q\<close> as it is.
\<close>

definition apart :: "ptr \<Rightarrow> ptr \<Rightarrow> bool" where
  "apart p q \<longleftrightarrow> list_all (\<lambda>k. 8 \<le> q + k - p) [0, 1, 2, 3, 4, 5, 6, 7]"





subsection \<open>Example states\<close>

text \<open>
  Memory whose bytes are all zero, and a general-purpose allocator that answers its
  next six calls with six distinct non-null pointers.
\<close>

definition zeroed_memory :: "ptr \<Rightarrow> byte" where
  "zeroed_memory = (\<lambda>_. 0)"

definition example_backing :: backing where
  "example_backing = \<lparr>replies = [4096, 8192, 12288, 16384, 20480, 24576], requests = []\<rparr>"

definition example_world :: world where
  "example_world = initial_world zeroed_memory example_backing"

section \<open>Properties\<close>

subsection \<open>Stores and loads of links\<close>

text \<open>
  A link that has been stored is read back unchanged, and a store to the link of a block
  leaves the link of every block that is \<open>apart\<close> from it as it is.
\<close>

lemma byte_pieces: "(ucast (ucast (v::ptr) :: byte) :: ptr) = take_bit 8 v"
  by (rule bit_eqI) (auto simp: bit_ucast_iff bit_take_bit_iff)

lemma bit_load_store_same:
  assumes "r < 8" and "k \<in> {0, 1, 2, 3, 4, 5, 6, 7::nat}"
  shows "bit (load_ptr (store_ptr m p v) p) (8 * k + r) \<longleftrightarrow> bit v (8 * k + r)"
  using assms(2,1)
  by (elim insertE emptyE)
     (simp_all add: load_ptr_def store_ptr_def byte_pieces bit_or_iff bit_push_bit_iff
        bit_take_bit_iff bit_drop_bit_eq)

lemma load_store_same: "load_ptr (store_ptr m p v) p = v"
proof (rule bit_eqI)
  fix n assume "possible_bit TYPE(ptr) n"
  then have n: "n < 64" by simp
  have pos: "n = 8 * (n div 8) + n mod 8" by simp
  have r: "n mod 8 < 8" by simp
  have "n div 8 < 8" using n by simp
  then have k: "n div 8 \<in> {0, 1, 2, 3, 4, 5, 6, 7}" by (simp; arith)
  from bit_load_store_same [OF r k, of m p v]
  show "bit (load_ptr (store_ptr m p v) p) n \<longleftrightarrow> bit v n"
    by (simp only: pos [symmetric])
qed


lemma apart_neq: "apart p q \<Longrightarrow> p \<noteq> q"
  by (auto simp: apart_def)

lemma block_next_eq: "block_next w = load_ptr (memory w)"
  by (simp add: fun_eq_iff block_next_def)

lemma block_next_mem_manager_update [simp]:
  "block_next (w\<lparr>mem_manager := mm\<rparr>) = block_next w"
  by (simp add: block_next_eq)

lemma block_next_gp_alloc_update [simp]:
  "block_next (w\<lparr>gp_alloc := g\<rparr>) = block_next w"
  by (simp add: block_next_eq)

lemma block_next_store [simp]:
  "block_next (w\<lparr>memory := store_ptr m p v\<rparr>) p = v"
  by (simp add: block_next_def load_store_same)

subsection \<open>Evaluation of the resolver and of the example states\<close>


lemma get_chunk_index_65536: "get_chunk_index 65536 = Inr 14"
  by code_simp

lemma get_chunk_index_small:
  "get_chunk_index 1 = Inl Undefined_builtin" "get_chunk_index 2 = Inl Undefined_builtin"
  by (simp_all add: get_chunk_index_def ctzll_def)

lemma initial_world_eq:
  "initial_world h g =
     \<lparr>mem_manager = \<lparr>free_list = [0, 0, 0, 0, 0, 0, 0, 0, 0, 0, 0, 0, 0, 0],
                     preallocated_counts = [0, 0, 0, 0, 0, 0, 0, 0, 0, 0, 0, 0, 0, 0]\<rparr>,
      memory = h, gp_alloc = g\<rparr>"
  by (simp add: initial_world_def mem_manager_init_def CHUNK_CLASSES_def numeral_eq_Suc)

lemma less_15_cases:
  "(i::nat) < 15 \<Longrightarrow> i \<in> {0, 1, 2, 3, 4, 5, 6, 7, 8, 9, 10, 11, 12, 13, 14}"
  by (simp; arith)

lemma chunk_sizes_nth:
  assumes "i < 15" shows "unat (chunk_sizes ! i) = 4 * 2 ^ i"
  using less_15_cases [OF assms] by (auto simp: chunk_sizes_def)


subsection \<open>Rejection boundary of \<^verbatim>\<open>mm_malloc\<close>\<close>

text \<open>
  C1 (the code departs from the claim at 65536). \<^verbatim>\<open>mm_malloc(0)\<close> and \<^verbatim>\<open>mm_malloc(65537)\<close>
  return \<^verbatim>\<open>NULL\<close> and leave the whole state as it was, in every state. For 65536 the
  resolver returns index 14, and \<^verbatim>\<open>free_list\<close> has the \<open>CHUNK_CLASSES = 14\<close> entries
  \<open>0..13\<close>: in the state at process start \<^verbatim>\<open>mm_malloc(65536)\<close> reads past the end of
  the array instead of returning a block of the 65536-byte class.
\<close>

theorem mm_malloc_rejection_boundary:
  "mm_malloc 0 w = Inr (0, w)
   \<and> mm_malloc 65537 w = Inr (0, w)
   \<and> mm_malloc 65536 (initial_world h g) = Inl Out_of_bounds"
  by (simp add: mm_malloc_def MAX_CHUNK_SIZE_def get_chunk_index_65536 initial_world_eq)

text \<open>The same read happens in every state whose \<^verbatim>\<open>free_list\<close> has its 14 entries.\<close>

lemma mm_malloc_largest_class:
  "length (free_list (mem_manager w)) = CHUNK_CLASSES \<Longrightarrow>
     mm_malloc 65536 w = Inl Out_of_bounds"
  by (simp add: mm_malloc_def MAX_CHUNK_SIZE_def get_chunk_index_65536 CHUNK_CLASSES_def)

subsection \<open>The resolver on sizes below the smallest class\<close>

text \<open>
  C2 (the code departs from the claim at sizes 1 and 2). Both sizes pass the test
  \<^verbatim>\<open>size & (size - 1)\<close> as powers of two, \<^verbatim>\<open>size / 4\<close> is 0, and \<^verbatim>\<open>__builtin_ctzll(0)\<close>
  has no defined result: the resolver does not return the index of the 4-byte class.
\<close>

theorem get_chunk_index_below_min:
  "get_chunk_index 1 = Inl Undefined_builtin \<and> get_chunk_index 2 = Inl Undefined_builtin"
  by (simp add: get_chunk_index_small)

subsection \<open>The resolver on sizes from 3 to 65536\<close>

text \<open>
  On every other size that \<^verbatim>\<open>mm_malloc\<close> and \<^verbatim>\<open>mm_free\<close> let through, the resolver
  returns the index of the smallest class whose size is at least the requested size.
  The builtins are characterised first: the leading zeros of a value between \<open>2 ^ h\<close>
  and \<open>2 ^ (h + 1)\<close>, the trailing zeros of a power of two, and the test
  \<^verbatim>\<open>size & (size - 1)\<close>.
\<close>

lemma bit_unat_word: "bit (unat (x::size_t)) m \<longleftrightarrow> bit x m"
  by (simp add: bit_unsigned_iff)

lemma top_bit_of_range:
  assumes "2 ^ h \<le> unat (x::size_t)" and "unat x < 2 ^ Suc h"
  shows "bit x h" and "h < m \<Longrightarrow> \<not> bit x m"
proof -
  have "unat x div 2 ^ h = 1"
    using assms by (intro div_nat_eqI) simp_all
  then show "bit x h"
    by (simp add: bit_unat_word [symmetric] bit_iff_odd)
  assume "h < m"
  then have "2 ^ Suc h \<le> (2::nat) ^ m" by (intro power_increasing) simp_all
  then have "unat x div 2 ^ m = 0" using assms(2) by simp
  then show "\<not> bit x m"
    by (simp add: bit_unat_word [symmetric] bit_iff_odd)
qed

lemma leading_zeros_eq:
  assumes "bit x h" and "h < n" and "\<forall>m. h < m \<longrightarrow> \<not> bit x m"
  shows "leading_zeros n x = n - 1 - h"
  using assms(2)
proof (induction n)
  case 0
  then show ?case by simp
next
  case (Suc n)
  show ?case
  proof (cases "h = n")
    case True
    then show ?thesis using assms(1) by simp
  next
    case False
    then have "h < n" using Suc.prems by simp
    moreover from this have "\<not> bit x n" using assms(3) by simp
    ultimately show ?thesis using Suc.IH by simp
  qed
qed

lemma trailing_zeros_eq:
  assumes "bit x (k + m)" and "\<forall>j<m. \<not> bit x (k + j)" and "m < n"
  shows "trailing_zeros n k x = m"
  using assms
proof (induction n arbitrary: k m)
  case 0
  then show ?case by simp
next
  case (Suc n)
  show ?case
  proof (cases m)
    case 0
    then show ?thesis using Suc.prems(1) by simp
  next
    case (Suc m')
    have nb: "\<not> bit x k" using Suc.prems(2) Suc by (metis add.right_neutral zero_less_Suc)
    have "trailing_zeros n (Suc k) x = m'"
      using Suc.prems Suc by (intro Suc.IH) auto
    then show ?thesis using nb Suc by simp
  qed
qed

lemma ctzll_power:
  assumes "p < 64" shows "ctzll (2 ^ p) = Inr p"
proof -
  have nz: "(2 ^ p :: size_t) \<noteq> 0" using assms by (simp add: power_eq_0_iff)
  have "trailing_zeros 64 0 (2 ^ p :: size_t) = p"
    using assms by (intro trailing_zeros_eq) (simp_all add: bit_exp_iff)
  then show ?thesis using nz by (simp add: ctzll_def)
qed


lemma unat_exp:
  assumes "p < 64" shows "unat (2 ^ p :: size_t) = 2 ^ p"
proof -
  have "(2::nat) ^ p < 2 ^ 64" using assms by (intro power_strict_increasing) simp_all
  moreover have "(2 ^ p :: size_t) = of_nat (2 ^ p)" by simp
  ultimately show ?thesis by (simp only: unat_of_nat) simp
qed

lemma clzll_range:
  assumes "2 ^ h \<le> unat (x::size_t)" and "unat x < 2 ^ Suc h" and "h < 64"
  shows "clzll x = Inr (63 - h)"
proof -
  have "(1::nat) \<le> 2 ^ h" by simp
  with assms(1) have "unat x \<noteq> 0" by linarith
  then have "x \<noteq> 0" by (simp add: unat_0_iff)
  moreover have "leading_zeros 64 x = 64 - 1 - h"
    using top_bit_of_range [OF assms(1,2)] assms(3) by (intro leading_zeros_eq) auto
  ultimately show ?thesis by (simp add: clzll_def)
qed

lemma power_of_two_and:
  assumes "h < 64" shows "(2 ^ h :: size_t) AND (2 ^ h - 1) = 0"
proof -
  have "(2 ^ h :: size_t) AND mask h = 0"
    by (rule bit_eqI) (auto simp: bit_and_iff bit_exp_iff bit_mask_iff)
  then show ?thesis by (simp only: mask_eq_exp_minus_1)
qed

lemma not_power_of_two_and:
  assumes "2 ^ h < unat (x::size_t)" and "unat x < 2 ^ Suc h"
  shows "x AND (x - 1) \<noteq> 0"
proof -
  have nz: "x \<noteq> 0" using assms(1) by (auto simp: unat_0_iff [symmetric])
  then have m: "unat (x - 1) = unat x - 1" by (rule unat_minus_one)
  have "bit x h" using assms by (intro top_bit_of_range(1)) simp_all
  moreover have "bit (x - 1) h"
    using assms m by (intro top_bit_of_range(1)) simp_all
  ultimately have "bit (x AND (x - 1)) h" by (simp add: bit_and_iff)
  then show ?thesis by auto
qed


lemma word_exp_div_4:
  assumes "2 \<le> p" and "p < 64"
  shows "(2 ^ p :: size_t) div 4 = 2 ^ (p - 2)"
proof -
  have "p = (p - 2) + 2" using assms(1) by simp
  then have "(2::nat) ^ p = 2 ^ (p - 2) * 2 ^ 2" by (metis power_add)
  then have split: "(2::nat) ^ p = 4 * 2 ^ (p - 2)" by simp
  have "unat ((2 ^ p :: size_t) div 4) = unat (2 ^ p :: size_t) div unat (4 :: size_t)"
    by (rule unat_div)
  also have "\<dots> = 2 ^ (p - 2)"
    using assms(2) by (simp add: unat_exp split)
  also have "\<dots> = unat (2 ^ (p - 2) :: size_t)"
    using assms(2) by (simp add: unat_exp)
  finally show ?thesis by (simp only: word_unat_eq_iff)
qed

lemma class_size_exp:
  assumes "i < 15" shows "unat (chunk_sizes ! i) = 2 ^ (i + 2)"
  using chunk_sizes_nth [OF assms] by simp

lemma get_chunk_index_exact:
  assumes "2 \<le> h" and "h \<le> 16"
  shows "get_chunk_index (2 ^ h) = Inr (h - 2)"
proof -
  have h: "h < 64" using assms(2) by simp
  have "(2 ^ h :: size_t) \<noteq> 0" using h by (simp add: power_eq_0_iff)
  then show ?thesis
    using power_of_two_and [OF h] word_exp_div_4 [OF assms(1) h] ctzll_power [of "h - 2"] h
    by (simp add: get_chunk_index_def)
qed

lemma get_chunk_index_round_up:
  assumes "2 ^ h < unat sz" and "unat sz < 2 ^ Suc h" and "1 \<le> h" and "h \<le> 15"
  shows "get_chunk_index sz = Inr (h - 1)"
proof -
  have h: "h < 64" "Suc h < 64" "2 \<le> Suc h" using assms(3,4) by simp_all
  have le: "2 ^ h \<le> unat sz" using assms(1) by simp
  then have "unat sz \<noteq> 0" by (metis assms(1) not_less0)
  then have nz: "sz \<noteq> 0" by (simp add: unat_0_iff)
  have sh: "shift_left 1 (64 - (63 - h)) = Inr (2 ^ Suc h)"
    using h by (simp add: shift_left_def Suc_diff_le)
  have "ctzll ((2 ^ Suc h :: size_t) div 4) = Inr (h - 1)"
    using word_exp_div_4 [OF h(3,2)] ctzll_power [of "h - 1"] h by simp
  then show ?thesis
    using nz not_power_of_two_and [OF assms(1,2)] clzll_range [OF le assms(2) h(1)] sh
    by (simp add: get_chunk_index_def)
qed

lemma get_chunk_index_correct:
  assumes "3 \<le> unat sz" and "unat sz \<le> 65536"
  shows "\<exists>i. get_chunk_index sz = Inr i \<and> i < length chunk_sizes
           \<and> unat sz \<le> unat (chunk_sizes ! i)
           \<and> (\<forall>j<i. unat (chunk_sizes ! j) < unat sz)"
proof -
  from ex_power_ivl1 [of 2 "unat sz"] assms(1)
  obtain h where h: "2 ^ h \<le> unat sz" "unat sz < 2 ^ Suc h" by auto
  have len: "length chunk_sizes = 15" by (simp add: chunk_sizes_def)
  have "(2::nat) ^ h \<le> 2 ^ 16" using h(1) assms(2) by simp
  then have h16: "h \<le> 16" using power_le_imp_le_exp [of "2::nat" h 16] by simp
  have h1: "1 \<le> h"
  proof (rule ccontr)
    assume "\<not> 1 \<le> h"
    then have "h = 0" by simp
    with h(2) assms(1) show False by simp
  qed
  show ?thesis
  proof (cases "unat sz = 2 ^ h")
    case True
    have h2: "2 \<le> h"
    proof (rule ccontr)
      assume "\<not> 2 \<le> h"
      then have "h = 1" using h1 by simp
      with True assms(1) show False by simp
    qed
    have "unat sz = unat (2 ^ h :: size_t)" using True h16 by (simp add: unat_exp)
    then have sz: "sz = 2 ^ h" by (simp only: word_unat_eq_iff)
    let ?i = "h - 2"
    have i: "?i < 15" using h16 by simp
    have idx: "get_chunk_index sz = Inr ?i"
      unfolding sz by (rule get_chunk_index_exact [OF h2 h16])
    have "?i + 2 = h" using h2 by simp
    then have size: "unat (chunk_sizes ! ?i) = unat sz"
      using class_size_exp [OF i] True by (simp only:)
    have "unat (chunk_sizes ! j) < unat sz" if "j < ?i" for j
    proof -
      have "j < 15" using that i by simp
      moreover have "(2::nat) ^ (j + 2) < 2 ^ h"
        using that by (intro power_strict_increasing) simp_all
      ultimately show ?thesis using True by (simp only: class_size_exp)
    qed
    then show ?thesis using idx i size len by auto
  next
    case False
    then have lt: "2 ^ h < unat sz" using h(1) by simp
    have "h \<noteq> 16" using lt assms(2) by auto
    then have h15: "h \<le> 15" using h16 by simp
    let ?i = "h - 1"
    have i: "?i < 15" using h15 h1 by simp
    have idx: "get_chunk_index sz = Inr ?i"
      by (rule get_chunk_index_round_up [OF lt h(2) h1 h15])
    have "?i + 2 = Suc h" using h1 by simp
    then have "unat (chunk_sizes ! ?i) = 2 ^ Suc h"
      using class_size_exp [OF i] by (simp only:)
    then have size: "unat sz \<le> unat (chunk_sizes ! ?i)" using h(2) by simp
    have "unat (chunk_sizes ! j) < unat sz" if "j < ?i" for j
    proof -
      have "j < 15" using that i by simp
      moreover have "(2::nat) ^ (j + 2) \<le> 2 ^ h"
        using that by (intro power_increasing) simp_all
      ultimately show ?thesis using lt by (simp only: class_size_exp)
    qed
    then show ?thesis using idx i size len by auto
  qed
qed


lemma class_of_in_range:
  assumes "3 \<le> unat sz" and "unat sz \<le> 32768"
  shows "\<exists>i. class_of sz = Some i \<and> i < CHUNK_CLASSES
           \<and> unat sz \<le> unat (chunk_sizes ! i)
           \<and> (\<forall>j<i. unat (chunk_sizes ! j) < unat sz)"
proof -
  from get_chunk_index_correct [OF assms(1)] assms(2)
  obtain i where i: "get_chunk_index sz = Inr i" "i < length chunk_sizes"
    "unat sz \<le> unat (chunk_sizes ! i)" "\<forall>j<i. unat (chunk_sizes ! j) < unat sz"
    by auto
  have "i \<noteq> 14"
  proof
    assume "i = 14"
    then have "unat (chunk_sizes ! 13) < unat sz" using i(4) by simp
    then show False using assms(2) by (simp add: chunk_sizes_def)
  qed
  then have "i < CHUNK_CLASSES"
    using i(2) by (simp add: chunk_sizes_def CHUNK_CLASSES_def)
  moreover have "sz \<noteq> 0" using assms(1) by auto
  moreover have "\<not> sz > MAX_CHUNK_SIZE"
    using assms(2) by (simp add: MAX_CHUNK_SIZE_def word_less_nat_alt)
  ultimately show ?thesis using i by (auto simp: class_of_def)
qed

subsection \<open>Silent rejection by \<^verbatim>\<open>mm_free\<close>\<close>

text \<open>
  C7. \<^verbatim>\<open>mm_free(ptr, size)\<close> with a null pointer, with size 0 or with a size above 65536
  returns normally and leaves the whole state (every free list, every counter, every
  link and the general-purpose allocator) unchanged.
\<close>

theorem mm_free_rejects_silently:
  "p = 0 \<or> sz = 0 \<or> sz > 65536 \<Longrightarrow> mm_free p sz w = Inr w"
  by (auto simp: mm_free_def MAX_CHUNK_SIZE_def)

theorem mm_free_rejects_silently_witness:
  "((0::ptr) = 0 \<or> (64::size_t) = 0 \<or> (64::size_t) > 65536)
   \<and> mm_free 0 64 example_world = Inr example_world
   \<and> ((4096::ptr) = 0 \<or> (0::size_t) = 0 \<or> (0::size_t) > 65536)
   \<and> mm_free 4096 0 example_world = Inr example_world
   \<and> ((4096::ptr) = 0 \<or> (65537::size_t) = 0 \<or> (65537::size_t) > 65536)
   \<and> mm_free 4096 65537 example_world = Inr example_world"
  using mm_free_rejects_silently [of 0 64 example_world]
    mm_free_rejects_silently [of 4096 0 example_world]
    mm_free_rejects_silently [of 4096 65537 example_world]
  by simp

subsection \<open>The preallocated counters under \<^verbatim>\<open>mm_malloc\<close> and \<^verbatim>\<open>mm_free\<close>\<close>

text \<open>Whenever one of the two operations returns, the counters are what they were.\<close>

lemma mm_malloc_counts:
  "mm_malloc sz w = Inr (p, w') \<Longrightarrow>
     preallocated_counts (mem_manager w') = preallocated_counts (mem_manager w)"
  by (auto simp: mm_malloc_def Let_def sys_malloc_def
      split: if_splits sum.splits list.splits prod.splits)

lemma mm_free_counts:
  "mm_free p sz w = Inr w' \<Longrightarrow>
     preallocated_counts (mem_manager w') = preallocated_counts (mem_manager w)"
  by (auto simp: mm_free_def split: if_splits sum.splits)

text \<open>
  C6 (the code departs from the claim for sizes of the 65536-byte class). A release of a
  non-null block with size 65536 passes the guard, gets index 14 and stores the block at
  \<^verbatim>\<open>mem_manager.free_list[14]\<close>, one entry past the end of the array. The store is outside
  \<^verbatim>\<open>free_list\<close>; the member that follows it in \<^verbatim>\<open>MemoryManager\<close> is
  \<^verbatim>\<open>preallocated_counts\<close>.
\<close>

theorem mm_free_largest_class_out_of_bounds:
  "mm_free 4096 65536 (initial_world h g) = Inl Out_of_bounds"
  by (simp add: mm_free_def MAX_CHUNK_SIZE_def get_chunk_index_65536 initial_world_eq)

text \<open>The same store happens for every non-null block in every state with 14 entries.\<close>

lemma mm_free_largest_class:
  "p \<noteq> 0 \<Longrightarrow> length (free_list (mem_manager w)) = CHUNK_CLASSES \<Longrightarrow>
     mm_free p 65536 w = Inl Out_of_bounds"
  by (simp add: mm_free_def MAX_CHUNK_SIZE_def get_chunk_index_65536 CHUNK_CLASSES_def)

subsection \<open>The fallback path of \<^verbatim>\<open>mm_malloc\<close>\<close>

text \<open>
  Where the resolver returns an index inside both arrays and the free list of that class
  is empty, \<^verbatim>\<open>mm_malloc\<close> makes one request for the class size and returns its result.
\<close>

lemma mm_malloc_fallback:
  assumes "class_of sz = Some i"
    and "i < length (free_list (mem_manager w))" and "i < length chunk_sizes"
    and "free_list (mem_manager w) ! i = 0"
  shows "mm_malloc sz w =
     Inr (fst (sys_malloc (chunk_sizes ! i) (gp_alloc w)),
          w\<lparr>gp_alloc := snd (sys_malloc (chunk_sizes ! i) (gp_alloc w))\<rparr>)"
    and "requests (snd (sys_malloc (chunk_sizes ! i) (gp_alloc w)))
           = requests (gp_alloc w) @ [chunk_sizes ! i]"
  using assms
  by (auto simp: mm_malloc_def class_of_def sys_malloc_def
      split: if_splits sum.splits list.splits)

text \<open>
  In particular this is so for every size from 3 to 32768, in every state whose
  \<^verbatim>\<open>free_list\<close> has its \<open>CHUNK_CLASSES\<close> entries.
\<close>

lemma mm_malloc_fallback_in_range:
  assumes "3 \<le> unat sz" and "unat sz \<le> 32768"
    and "length (free_list (mem_manager w)) = CHUNK_CLASSES"
  shows "\<exists>i. class_of sz = Some i \<and> i < CHUNK_CLASSES
     \<and> unat sz \<le> unat (chunk_sizes ! i)
     \<and> (free_list (mem_manager w) ! i = 0 \<longrightarrow>
           mm_malloc sz w =
             Inr (fst (sys_malloc (chunk_sizes ! i) (gp_alloc w)),
                  w\<lparr>gp_alloc := snd (sys_malloc (chunk_sizes ! i) (gp_alloc w))\<rparr>)
         \<and> requests (snd (sys_malloc (chunk_sizes ! i) (gp_alloc w)))
               = requests (gp_alloc w) @ [chunk_sizes ! i])"
proof -
  from class_of_in_range [OF assms(1,2)] obtain i where i: "class_of sz = Some i"
    "i < CHUNK_CLASSES" "unat sz \<le> unat (chunk_sizes ! i)"
    by blast
  have b: "i < length (free_list (mem_manager w))" "i < length chunk_sizes"
    using i(2) assms(3) by (simp_all add: chunk_sizes_def CHUNK_CLASSES_def)
  from mm_malloc_fallback [OF i(1) b] i show ?thesis by blast
qed

text \<open>
  C8 (the code departs from the claim at sizes 1, 2 and 32769 to 65536). For sizes 1 and
  2 the resolver has no defined result; for a size of the 65536-byte class the index is
  14 and the read of \<^verbatim>\<open>mem_manager.free_list[14]\<close> is past the end of the array. In neither
  case does \<^verbatim>\<open>mm_malloc\<close> reach the single request for the class size.
\<close>

theorem mm_malloc_fallback_undefined:
  "mm_malloc 1 (initial_world h g) = Inl Undefined_builtin
   \<and> mm_malloc 2 (initial_world h g) = Inl Undefined_builtin
   \<and> mm_malloc 65536 (initial_world h g) = Inl Out_of_bounds"
  by (simp add: mm_malloc_def MAX_CHUNK_SIZE_def get_chunk_index_small get_chunk_index_65536
      initial_world_eq)

subsection \<open>Seeding with budget 40\<close>

lemma seed_40_eval:
  assumes "replies g = p1 # p2 # p3 # p4 # rest"
    and "p1 \<noteq> 0" and "p2 \<noteq> 0" and "p3 \<noteq> 0" and "p4 \<noteq> 0"
  shows "preallocate_memory 40 (initial_world h g) =
     Inr (60,
       \<lparr>mem_manager = \<lparr>free_list = [p1, p2, p3, p4, 0, 0, 0, 0, 0, 0, 0, 0, 0, 0],
                       preallocated_counts = [1, 1, 1, 1, 0, 0, 0, 0, 0, 0, 0, 0, 0, 0]\<rparr>,
        memory = store_ptr (store_ptr (store_ptr (store_ptr h p1 0) p2 0) p3 0) p4 0,
        gp_alloc = g\<lparr>replies := rest, requests := requests g @ [4, 8, 16, 32]\<rparr>\<rparr>)"
  using assms
  by (simp add: preallocate_memory_def preallocate_loop.simps seed_block_def sys_malloc_def
      initial_world_eq CHUNK_CLASSES_def chunk_sizes_def)

lemma seed_40_example:
  "preallocate_memory 40 example_world =
     Inr (60,
       \<lparr>mem_manager =
          \<lparr>free_list = [4096, 8192, 12288, 16384, 0, 0, 0, 0, 0, 0, 0, 0, 0, 0],
           preallocated_counts = [1, 1, 1, 1, 0, 0, 0, 0, 0, 0, 0, 0, 0, 0]\<rparr>,
        memory = store_ptr (store_ptr (store_ptr (store_ptr zeroed_memory 4096 0) 8192 0)
                   12288 0) 16384 0,
        gp_alloc = \<lparr>replies = [20480, 24576], requests = [4, 8, 16, 32]\<rparr>\<rparr>)"
  unfolding example_world_def
  by (subst seed_40_eval [where ?p1.0 = 4096 and ?p2.0 = 8192 and ?p3.0 = 12288
        and ?p4.0 = 16384 and rest = "[20480, 24576]"])
     (simp_all add: example_backing_def)

text \<open>
  C3, as stated, fails: with budget 40 the seeder makes the four requests 4, 8, 16, 32 and
  stops. It does not go back to the 4-byte class, although the general-purpose allocator
  has two more blocks to give and \<open>60 + 4 \<le> 80\<close>.
\<close>

theorem seed_40_no_second_round:
  "\<exists>seeded w'. preallocate_memory 40 example_world = Inr (seeded, w')
     \<and> seeded = 60
     \<and> requests (gp_alloc w') = [4, 8, 16, 32]
     \<and> preallocated_counts (mem_manager w') = [1, 1, 1, 1, 0, 0, 0, 0, 0, 0, 0, 0, 0, 0]
     \<and> replies (gp_alloc w') = [20480, 24576]"
  by (simp add: seed_40_example)

text \<open>
  C3, amended. Seeding with budget 40 from the state at process start, with a
  general-purpose allocator that satisfies four requests, seeds in this exact order one
  4-byte, one 8-byte, one 16-byte and one 32-byte block and then stops: the loop ends at
  the first class whose block does not fit (\<open>60 + 64 > 80\<close>). It seeds 60 bytes; the
  final state is a function of the initial state alone.
\<close>

theorem seed_40_sequence:
  assumes "replies g = p1 # p2 # p3 # p4 # rest"
    and "p1 \<noteq> 0" and "p2 \<noteq> 0" and "p3 \<noteq> 0" and "p4 \<noteq> 0"
  shows "preallocate_memory 40 (initial_world h g) =
     Inr (60,
       \<lparr>mem_manager = \<lparr>free_list = [p1, p2, p3, p4, 0, 0, 0, 0, 0, 0, 0, 0, 0, 0],
                       preallocated_counts = [1, 1, 1, 1, 0, 0, 0, 0, 0, 0, 0, 0, 0, 0]\<rparr>,
        memory = store_ptr (store_ptr (store_ptr (store_ptr h p1 0) p2 0) p3 0) p4 0,
        gp_alloc = g\<lparr>replies := rest, requests := requests g @ [4, 8, 16, 32]\<rparr>\<rparr>)"
  using assms by (rule seed_40_eval)

theorem seed_40_sequence_witness:
  "replies example_backing = 4096 # 8192 # 12288 # 16384 # [20480, 24576]
   \<and> (4096::ptr) \<noteq> 0 \<and> (8192::ptr) \<noteq> 0 \<and> (12288::ptr) \<noteq> 0 \<and> (16384::ptr) \<noteq> 0
   \<and> preallocate_memory 40 (initial_world zeroed_memory example_backing) =
     Inr (60,
       \<lparr>mem_manager =
          \<lparr>free_list = [4096, 8192, 12288, 16384, 0, 0, 0, 0, 0, 0, 0, 0, 0, 0],
           preallocated_counts = [1, 1, 1, 1, 0, 0, 0, 0, 0, 0, 0, 0, 0, 0]\<rparr>,
        memory = store_ptr (store_ptr (store_ptr (store_ptr zeroed_memory 4096 0) 8192 0)
                   12288 0) 16384 0,
        gp_alloc = example_backing\<lparr>replies := [20480, 24576],
                     requests := requests example_backing @ [4, 8, 16, 32]\<rparr>\<rparr>)"
proof -
  have r: "replies example_backing = 4096 # 8192 # 12288 # 16384 # [20480, 24576]"
    by (simp add: example_backing_def)
  have nz: "(4096::ptr) \<noteq> 0" "(8192::ptr) \<noteq> 0" "(12288::ptr) \<noteq> 0" "(16384::ptr) \<noteq> 0"
    by simp_all
  from seed_40_sequence [OF r nz, of zeroed_memory] r nz show ?thesis by blast
qed

subsection \<open>The seeding loop in general\<close>

lemma seed_block_Inr:
  assumes "seed_block i w = Inr w'"
  shows "i < length chunk_sizes \<and> i < length (free_list (mem_manager w))
     \<and> i < length (preallocated_counts (mem_manager w))
     \<and> (\<exists>b rest. replies (gp_alloc w) = b # rest \<and> b \<noteq> 0
          \<and> gp_alloc w' = (gp_alloc w)\<lparr>replies := rest,
                 requests := requests (gp_alloc w) @ [chunk_sizes ! i]\<rparr>
          \<and> free_list (mem_manager w') = (free_list (mem_manager w))[i := b]
          \<and> memory w' = store_ptr (memory w) b (free_list (mem_manager w) ! i)
          \<and> preallocated_counts (mem_manager w') = (preallocated_counts (mem_manager w))
               [i := preallocated_counts (mem_manager w) ! i + 1])"
  using assms
  by (auto simp: seed_block_def sys_malloc_def split: if_splits list.splits)


lemma chunk_sizes_bounds:
  assumes "i < CHUNK_CLASSES"
  shows "4 \<le> unat (chunk_sizes ! i)" and "unat (chunk_sizes ! i) \<le> 32768"
proof -
  have i: "i < 15" "i \<le> 13" using assms by (simp_all add: CHUNK_CLASSES_def)
  have "(2::nat) ^ i \<le> 2 ^ 13" using i(2) by (intro power_increasing) simp_all
  then have "(2::nat) ^ i \<le> 8192" by simp
  moreover have "(1::nat) \<le> 2 ^ i" by simp
  ultimately show "4 \<le> unat (chunk_sizes ! i)" and "unat (chunk_sizes ! i) \<le> 32768"
    by (simp_all add: chunk_sizes_nth [OF i(1)])
qed

lemma preallocate_loop_iterations:
  assumes "preallocate_loop t a i w = Inr (seeded, w')"
    and "i < CHUNK_CLASSES"
    and "unat a \<le> unat (t * 2)"
    and "unat (t * 2) + 32768 < 2 ^ 64
         \<or> unat a + (length (replies (gp_alloc w)) + 1) * 32768 < 2 ^ 64"
  shows "\<exists>n. seed_iterations n i w = Inr w'
     \<and> unat seeded = unat a + (\<Sum>k<n. unat (chunk_sizes ! ((i + k) mod CHUNK_CLASSES)))
     \<and> unat seeded \<le> unat (t * 2)
     \<and> unat (t * 2) < unat seeded + unat (chunk_sizes ! ((i + n) mod CHUNK_CLASSES))"
  using assms
proof (induction t a i w rule: preallocate_loop.induct)
  case (1 t a i w)
  let ?c = "chunk_sizes ! i"
  let ?j = "(i + 1) mod CHUNK_CLASSES"
  have i15: "\<not> length chunk_sizes \<le> i"
    using "1.prems"(2) by (simp add: chunk_sizes_def CHUNK_CLASSES_def)
  have imod: "i mod CHUNK_CLASSES = i" using "1.prems"(2) by simp
  have cb: "4 \<le> unat ?c" "unat ?c \<le> 32768"
    using chunk_sizes_bounds [OF "1.prems"(2)] by blast+
  have room: "unat a + unat ?c < 2 ^ 64"
    using "1.prems"(3,4) cb by auto
  then have add: "unat (a + ?c) = unat a + unat ?c"
    using unat_add_lem [of a ?c] by simp
  show ?case
  proof (cases "a + ?c \<le> t * 2")
    case True
    from "1.prems"(1) obtain w1 where sb: "seed_block i w = Inr w1"
      and rec: "preallocate_loop t (a + ?c) ?j w1 = Inr (seeded, w')"
      using i15 True by (subst (asm) preallocate_loop.simps) (auto split: sum.splits)
    have le: "unat (a + ?c) \<le> unat (t * 2)"
      using True by (simp add: word_le_nat_alt)
    have len: "length (replies (gp_alloc w)) = Suc (length (replies (gp_alloc w1)))"
      using seed_block_Inr [OF sb] by auto
    have fits: "unat (t * 2) + 32768 < 2 ^ 64
         \<or> unat (a + ?c) + (length (replies (gp_alloc w1)) + 1) * 32768 < 2 ^ 64"
      using "1.prems"(4) cb(2) unfolding add len by auto
    have j: "?j < CHUNK_CLASSES" by (simp add: CHUNK_CLASSES_def)
    from "1.IH" [OF i15 True sb rec j le fits]
    obtain n where n: "seed_iterations n ?j w1 = Inr w'"
      "unat seeded = unat (a + ?c) + (\<Sum>k<n. unat (chunk_sizes ! ((?j + k) mod CHUNK_CLASSES)))"
      "unat seeded \<le> unat (t * 2)"
      "unat (t * 2) < unat seeded + unat (chunk_sizes ! ((?j + n) mod CHUNK_CLASSES))"
      by blast
    have shift: "(?j + k) mod CHUNK_CLASSES = (i + Suc k) mod CHUNK_CLASSES" for k
      by (simp add: mod_add_left_eq)
    have "seed_iterations (Suc n) i w = Inr w'" using sb n(1) by simp
    moreover have "(\<Sum>k<Suc n. unat (chunk_sizes ! ((i + k) mod CHUNK_CLASSES)))
        = unat ?c + (\<Sum>k<n. unat (chunk_sizes ! ((i + Suc k) mod CHUNK_CLASSES)))"
      by (subst sum.lessThan_Suc_shift) (simp add: imod)
    with n(2) have "unat seeded
        = unat a + (\<Sum>k<Suc n. unat (chunk_sizes ! ((i + k) mod CHUNK_CLASSES)))"
      by (simp only: shift add)
    moreover have "unat (t * 2)
        < unat seeded + unat (chunk_sizes ! ((i + Suc n) mod CHUNK_CLASSES))"
      using n(4) by (simp only: shift)
    ultimately show ?thesis using n(3) by blast
  next
    case False
    from "1.prems"(1) have res: "seeded = a" "w' = w"
      using i15 False by (subst (asm) preallocate_loop.simps, simp)+
    have "unat (t * 2) < unat a + unat ?c"
      using False add by (simp add: word_le_nat_alt)
    then have "seed_iterations 0 i w = Inr w'
      \<and> unat seeded = unat a + (\<Sum>k<0. unat (chunk_sizes ! ((i + k) mod CHUNK_CLASSES)))
      \<and> unat seeded \<le> unat (t * 2)
      \<and> unat (t * 2) < unat seeded + unat (chunk_sizes ! ((i + 0) mod CHUNK_CLASSES))"
      using res "1.prems"(3) by (simp add: imod)
    then show ?thesis by blast
  qed
qed


lemma seed_iterations_Suc:
  "i < CHUNK_CLASSES \<Longrightarrow>
   seed_iterations (Suc n) i w =
     (case seed_iterations n i w of
        Inl e \<Rightarrow> Inl e
      | Inr u \<Rightarrow> seed_block ((i + n) mod CHUNK_CLASSES) u)"
proof (induction n arbitrary: i w)
  case 0
  then show ?case by (simp split: sum.splits)
next
  case (Suc n)
  let ?j = "(i + 1) mod CHUNK_CLASSES"
  have j: "?j < CHUNK_CLASSES" by (simp add: CHUNK_CLASSES_def)
  have shift: "(?j + n) mod CHUNK_CLASSES = (i + Suc n) mod CHUNK_CLASSES"
    by (simp add: mod_add_left_eq)
  show ?case
  proof (cases "seed_block i w")
    case (Inl e)
    then show ?thesis by simp
  next
    case (Inr w1)
    have "seed_iterations (Suc (Suc n)) i w = seed_iterations (Suc n) ?j w1"
      using Inr by simp
    also have "\<dots> = (case seed_iterations n ?j w1 of
        Inl e \<Rightarrow> Inl e
      | Inr u \<Rightarrow> seed_block ((i + Suc n) mod CHUNK_CLASSES) u)"
      using Suc.IH [OF j, of w1] by (simp only: shift)
    also have "seed_iterations n ?j w1 = seed_iterations (Suc n) i w"
      using Inr by simp
    finally show ?thesis .
  qed
qed

lemma seed_iterations_prefix:
  assumes "seed_iterations n i w = Inr w'" and "i < CHUNK_CLASSES" and "m \<le> n"
  shows "\<exists>u. seed_iterations m i w = Inr u"
  using assms
proof (induction n arbitrary: w')
  case 0
  then show ?case by simp
next
  case (Suc n)
  show ?case
  proof (cases "m = Suc n")
    case True
    then show ?thesis using Suc.prems(1) by blast
  next
    case False
    then have m: "m \<le> n" using Suc.prems(3) by simp
    from Suc.prems(1) obtain u where "seed_iterations n i w = Inr u"
      unfolding seed_iterations_Suc [OF Suc.prems(2)] by (auto split: sum.splits)
    from Suc.IH [OF this Suc.prems(2) m] show ?thesis .
  qed
qed

lemma seed_iterations_step:
  assumes "seed_iterations n i w = Inr w'" and "i < CHUNK_CLASSES" and "m < n"
  shows "\<exists>u v. seed_iterations m i w = Inr u \<and> seed_iterations (Suc m) i w = Inr v
           \<and> seed_block ((i + m) mod CHUNK_CLASSES) u = Inr v"
proof -
  from seed_iterations_prefix [OF assms(1,2), of m] assms(3)
  obtain u where u: "seed_iterations m i w = Inr u" by auto
  from seed_iterations_prefix [OF assms(1,2), of "Suc m"] assms(3)
  obtain v where v: "seed_iterations (Suc m) i w = Inr v" by auto
  have "seed_block ((i + m) mod CHUNK_CLASSES) u = Inr v"
    using v unfolding seed_iterations_Suc [OF assms(2)] u by simp
  with u v show ?thesis by blast
qed

lemma seed_iterations_requests:
  assumes "seed_iterations n i w = Inr w'" and "i < CHUNK_CLASSES"
  shows "requests (gp_alloc w') = requests (gp_alloc w)
           @ map (\<lambda>k. chunk_sizes ! ((i + k) mod CHUNK_CLASSES)) [0..<n]
       \<and> replies (gp_alloc w') = drop n (replies (gp_alloc w))"
  using assms(1)
proof (induction n arbitrary: w')
  case 0
  then show ?case by simp
next
  case (Suc n)
  from Suc.prems obtain u where u: "seed_iterations n i w = Inr u"
    and sb: "seed_block ((i + n) mod CHUNK_CLASSES) u = Inr w'"
    unfolding seed_iterations_Suc [OF assms(2)] by (auto split: sum.splits)
  from seed_block_Inr [OF sb] obtain b rest where
    g: "replies (gp_alloc u) = b # rest"
       "gp_alloc w' = (gp_alloc u)\<lparr>replies := rest,
           requests := requests (gp_alloc u) @ [chunk_sizes ! ((i + n) mod CHUNK_CLASSES)]\<rparr>"
    by blast
  from Suc.IH [OF u] have ih:
    "requests (gp_alloc u) = requests (gp_alloc w)
       @ map (\<lambda>k. chunk_sizes ! ((i + k) mod CHUNK_CLASSES)) [0..<n]"
    "drop n (replies (gp_alloc w)) = b # rest"
    using g(1) by simp_all
  have "drop (Suc n) (replies (gp_alloc w)) = tl (drop n (replies (gp_alloc w)))"
    by (simp add: drop_Suc drop_tl)
  then have "drop (Suc n) (replies (gp_alloc w)) = rest"
    using ih(2) by simp
  then show ?case using ih(1) g(2) by simp
qed


lemma seeding_fits_start:
  assumes "seeding_fits B (gp_alloc w)"
  shows "unat (B * 2) + 32768 < 2 ^ 64
         \<or> unat (0::size_t) + (length (replies (gp_alloc w)) + 1) * 32768 < 2 ^ 64"
  using assms by (simp add: seeding_fits_def)

lemma unat_double_le: "unat (B * 2 :: size_t) \<le> 2 * unat B"
proof -
  have "unat (B * 2) = (unat B * 2) mod 2 ^ 64"
    by (simp add: unat_word_ariths)
  also have "\<dots> \<le> unat B * 2" by (rule mod_less_eq_dividend)
  finally show ?thesis by simp
qed

text \<open>
  C4. For every budget \<open>B\<close>, where the \<^verbatim>\<open>size_t\<close> arithmetic of the loop cannot wrap
  around (\<open>seeding_fits\<close>), a seeding that returns has run some number \<open>n\<close> of iterations.
  Iteration \<open>m\<close> works on class \<open>m mod CHUNK_CLASSES\<close>, that is on the classes
  0, 1, \<dots>, 13, 0, 1, \<dots> in this order. It takes exactly one block \<open>b\<close> from the
  general-purpose allocator, requested with the size \<open>4 * 2 ^ (m mod CHUNK_CLASSES)\<close> of
  that class, writes the old head of that class's free list into the 8 bytes at \<open>b\<close>
  (the link of \<open>b\<close>), makes \<open>b\<close> the new head, and adds one to that class's counter. The bytes seeded are the sum of the sizes
  requested, they are at most \<open>2 * B\<close>, and the loop stops because the next block would
  take them above the doubled budget.
\<close>

theorem seeder_round_robin:
  assumes "seeding_fits B (gp_alloc w)"
    and "preallocate_memory B w = Inr (seeded, w')"
  shows "\<exists>n. seed_iterations n 0 w = Inr w'
     \<and> (\<forall>m<n. \<exists>u v b rest.
           seed_iterations m 0 w = Inr u \<and> seed_iterations (Suc m) 0 w = Inr v
         \<and> replies (gp_alloc u) = b # rest \<and> b \<noteq> 0
         \<and> gp_alloc v = (gp_alloc u)\<lparr>replies := rest,
               requests := requests (gp_alloc u) @ [chunk_sizes ! (m mod CHUNK_CLASSES)]\<rparr>
         \<and> unat (chunk_sizes ! (m mod CHUNK_CLASSES)) = 4 * 2 ^ (m mod CHUNK_CLASSES)
         \<and> free_list (mem_manager v) = (free_list (mem_manager u))[m mod CHUNK_CLASSES := b]
         \<and> memory v = store_ptr (memory u) b (free_list (mem_manager u) ! (m mod CHUNK_CLASSES))
         \<and> block_next v b = free_list (mem_manager u) ! (m mod CHUNK_CLASSES)
         \<and> preallocated_counts (mem_manager v) = (preallocated_counts (mem_manager u))
              [m mod CHUNK_CLASSES :=
                 preallocated_counts (mem_manager u) ! (m mod CHUNK_CLASSES) + 1])
     \<and> requests (gp_alloc w') = requests (gp_alloc w)
           @ map (\<lambda>k. chunk_sizes ! (k mod CHUNK_CLASSES)) [0..<n]
     \<and> unat seeded = (\<Sum>k<n. unat (chunk_sizes ! (k mod CHUNK_CLASSES)))
     \<and> unat seeded \<le> 2 * unat B
     \<and> unat (B * 2) < unat seeded + unat (chunk_sizes ! (n mod CHUNK_CLASSES))"
proof -
  have z: "(0::nat) < CHUNK_CLASSES" by (simp add: CHUNK_CLASSES_def)
  have loop: "preallocate_loop B 0 0 w = Inr (seeded, w')"
    using assms(2) by (simp add: preallocate_memory_def)
  from preallocate_loop_iterations [OF loop z _ seeding_fits_start [OF assms(1)]]
  obtain n where n: "seed_iterations n 0 w = Inr w'"
    "unat seeded = (\<Sum>k<n. unat (chunk_sizes ! (k mod CHUNK_CLASSES)))"
    "unat seeded \<le> unat (B * 2)"
    "unat (B * 2) < unat seeded + unat (chunk_sizes ! (n mod CHUNK_CLASSES))"
    by auto
  have step: "\<exists>u v b rest.
           seed_iterations m 0 w = Inr u \<and> seed_iterations (Suc m) 0 w = Inr v
         \<and> replies (gp_alloc u) = b # rest \<and> b \<noteq> 0
         \<and> gp_alloc v = (gp_alloc u)\<lparr>replies := rest,
               requests := requests (gp_alloc u) @ [chunk_sizes ! (m mod CHUNK_CLASSES)]\<rparr>
         \<and> unat (chunk_sizes ! (m mod CHUNK_CLASSES)) = 4 * 2 ^ (m mod CHUNK_CLASSES)
         \<and> free_list (mem_manager v) = (free_list (mem_manager u))[m mod CHUNK_CLASSES := b]
         \<and> memory v = store_ptr (memory u) b (free_list (mem_manager u) ! (m mod CHUNK_CLASSES))
         \<and> block_next v b = free_list (mem_manager u) ! (m mod CHUNK_CLASSES)
         \<and> preallocated_counts (mem_manager v) = (preallocated_counts (mem_manager u))
              [m mod CHUNK_CLASSES :=
                 preallocated_counts (mem_manager u) ! (m mod CHUNK_CLASSES) + 1]"
    if m: "m < n" for m
  proof -
    from seed_iterations_step [OF n(1) z m] obtain u v where uv:
      "seed_iterations m 0 w = Inr u" "seed_iterations (Suc m) 0 w = Inr v"
      "seed_block (m mod CHUNK_CLASSES) u = Inr v"
      by auto
    have "m mod CHUNK_CLASSES < 15" by (simp add: CHUNK_CLASSES_def less_trans [OF mod_less_divisor])
    note size = chunk_sizes_nth [OF this]
    from seed_block_Inr [OF uv(3)] obtain b rest where e:
      "replies (gp_alloc u) = b # rest" "b \<noteq> 0"
      "gp_alloc v = (gp_alloc u)\<lparr>replies := rest,
         requests := requests (gp_alloc u) @ [chunk_sizes ! (m mod CHUNK_CLASSES)]\<rparr>"
      "free_list (mem_manager v) = (free_list (mem_manager u))[m mod CHUNK_CLASSES := b]"
      "memory v = store_ptr (memory u) b (free_list (mem_manager u) ! (m mod CHUNK_CLASSES))"
      "preallocated_counts (mem_manager v) = (preallocated_counts (mem_manager u))
         [m mod CHUNK_CLASSES := preallocated_counts (mem_manager u) ! (m mod CHUNK_CLASSES) + 1]"
      by blast
    have link: "block_next v b = free_list (mem_manager u) ! (m mod CHUNK_CLASSES)"
      by (simp add: block_next_def e(5) load_store_same)
    from uv(1,2) e size link show ?thesis by blast
  qed
  have "requests (gp_alloc w') = requests (gp_alloc w)
           @ map (\<lambda>k. chunk_sizes ! (k mod CHUNK_CLASSES)) [0..<n]"
    using seed_iterations_requests [OF n(1) z] by simp
  moreover have "unat seeded \<le> 2 * unat B"
    using n(3) unat_double_le [of B] by simp
  ultimately show ?thesis using n(1,2,4) step by blast
qed

theorem seeder_round_robin_witness:
  "seeding_fits 40 (gp_alloc example_world)
   \<and> (\<exists>w'. preallocate_memory 40 example_world = Inr (60, w')
     \<and> (\<exists>n. seed_iterations n 0 example_world = Inr w'
       \<and> requests (gp_alloc w') = requests (gp_alloc example_world)
             @ map (\<lambda>k. chunk_sizes ! (k mod CHUNK_CLASSES)) [0..<n]
       \<and> unat (60::size_t) = (\<Sum>k<n. unat (chunk_sizes ! (k mod CHUNK_CLASSES)))
       \<and> unat (60::size_t) \<le> 2 * unat (40::size_t)
       \<and> unat (40 * 2 :: size_t) < unat (60::size_t) + unat (chunk_sizes ! (n mod CHUNK_CLASSES))))"
proof -
  have fits: "seeding_fits 40 (gp_alloc example_world)"
    by (simp add: seeding_fits_def)
  from seeder_round_robin [OF fits seed_40_example] fits seed_40_example
  show ?thesis by blast
qed

subsection \<open>Balance of the seeded counters\<close>

lemma seed_iterations_counts:
  assumes "seed_iterations n 0 w = Inr w'"
    and "preallocated_counts (mem_manager w) = replicate CHUNK_CLASSES 0"
  shows "length (preallocated_counts (mem_manager w')) = CHUNK_CLASSES
     \<and> (\<forall>k<CHUNK_CLASSES. preallocated_counts (mem_manager w') ! k
            = of_nat (if k < n mod CHUNK_CLASSES then n div CHUNK_CLASSES + 1
                      else n div CHUNK_CLASSES))"
  using assms(1)
proof (induction n arbitrary: w')
  case 0
  then show ?case using assms(2) by (auto simp: CHUNK_CLASSES_def)
next
  case (Suc n)
  have z: "(0::nat) < CHUNK_CLASSES" by (simp add: CHUNK_CLASSES_def)
  from Suc.prems obtain u where u: "seed_iterations n 0 w = Inr u"
    and sb: "seed_block (n mod CHUNK_CLASSES) u = Inr w'"
    unfolding seed_iterations_Suc [OF z] by (auto split: sum.splits)
  let ?c = "preallocated_counts (mem_manager u)"
  let ?r = "n mod CHUNK_CLASSES"
  let ?q = "n div CHUNK_CLASSES"
  from Suc.IH [OF u] have ih: "length ?c = CHUNK_CLASSES"
    "\<And>k. k < CHUNK_CLASSES \<Longrightarrow> ?c ! k = of_nat (if k < ?r then ?q + 1 else ?q)"
    by blast+
  have r: "?r < CHUNK_CLASSES" using z by simp
  from seed_block_Inr [OF sb] have c':
    "preallocated_counts (mem_manager w') = ?c[?r := ?c ! ?r + 1]"
    by blast
  have at_r: "?c[?r := ?c ! ?r + 1] ! ?r = of_nat (?q + 1)"
    using ih(1) ih(2) [OF r] r by simp
  have "preallocated_counts (mem_manager w') ! k
          = of_nat (if k < Suc n mod CHUNK_CLASSES then Suc n div CHUNK_CLASSES + 1
                    else Suc n div CHUNK_CLASSES)"
    if k: "k < CHUNK_CLASSES" for k
  proof (cases "k = ?r")
    case True
    show ?thesis
      unfolding c' True at_r using r by (simp add: mod_Suc div_Suc)
  next
    case False
    then have "preallocated_counts (mem_manager w') ! k = ?c ! k"
      using c' by simp
    also have "\<dots> = of_nat (if k < ?r then ?q + 1 else ?q)"
      using ih(2) [OF k] .
    also have "(if k < ?r then ?q + 1 else ?q)
        = (if k < Suc n mod CHUNK_CLASSES then Suc n div CHUNK_CLASSES + 1
           else Suc n div CHUNK_CLASSES)"
      using False k r by (auto simp: mod_Suc div_Suc)
    finally show ?thesis .
  qed
  then show ?case using c' ih(1) by simp
qed


lemma seeded_iterations_bound:
  assumes "unat (seeded :: size_t) = (\<Sum>k<n. unat (chunk_sizes ! (k mod CHUNK_CLASSES)))"
  shows "4 * n < 2 ^ 64"
proof -
  have "4 \<le> unat (chunk_sizes ! (k mod CHUNK_CLASSES))" for k
    by (rule chunk_sizes_bounds) (simp add: CHUNK_CLASSES_def)
  then have "(\<Sum>k<n. 4) \<le> (\<Sum>k<n. unat (chunk_sizes ! (k mod CHUNK_CLASSES)))"
    by (intro sum_mono) simp
  then have "4 * n \<le> unat seeded" using assms by simp
  moreover have "unat seeded < 2 ^ 64" using unsigned_less [of seeded] by simp
  ultimately show ?thesis by linarith
qed

lemma sum_round_robin:
  "r \<le> m \<Longrightarrow> (\<Sum>k<m. if k < r then q + 1 else q) = m * q + (r::nat)"
proof (induction m)
  case 0
  then show ?case by simp
next
  case (Suc m)
  show ?case
  proof (cases "r \<le> m")
    case True
    then show ?thesis using Suc.IH by simp
  next
    case False
    then have r: "r = Suc m" using Suc.prems by simp
    have "(\<Sum>k<m. if k < r then q + 1 else q) = (\<Sum>k<m. q + 1)"
      by (rule sum.cong) (simp_all add: r)
    then show ?thesis by (simp add: r)
  qed
qed

text \<open>
  C10. Starting from the state at process start, for every budget (where the \<^verbatim>\<open>size_t\<close>
  arithmetic of the loop cannot wrap around), a seeding that returns has seeded some
  number \<open>n\<close> of blocks: it has made \<open>n\<close> requests, for the classes 0, 1, \<dots>, 13, 0, \<dots>
  in this order, has taken the first \<open>n\<close> blocks of the general-purpose allocator, and
  has stopped at class \<open>n mod CHUNK_CLASSES\<close>, whose block would take the bytes seeded
  above the doubled budget. Every class below this stopping class has
  \<open>n div CHUNK_CLASSES + 1\<close> preallocated blocks and every class from the stopping class
  on has \<open>n div CHUNK_CLASSES\<close>; the counts add up to \<open>n\<close>. So the counts are
  nonincreasing in the class index and any two of them differ by at most one.
\<close>

theorem seeder_balance:
  assumes "seeding_fits B g"
    and "preallocate_memory B (initial_world h g) = Inr (seeded, w')"
  shows "\<exists>n.
       seed_iterations n 0 (initial_world h g) = Inr w'
     \<and> requests (gp_alloc w') = requests g
           @ map (\<lambda>k. chunk_sizes ! (k mod CHUNK_CLASSES)) [0..<n]
     \<and> replies (gp_alloc w') = drop n (replies g)
     \<and> unat seeded = (\<Sum>k<n. unat (chunk_sizes ! (k mod CHUNK_CLASSES)))
     \<and> unat (B * 2) < unat seeded + unat (chunk_sizes ! (n mod CHUNK_CLASSES))
     \<and> length (preallocated_counts (mem_manager w')) = CHUNK_CLASSES
     \<and> (\<forall>k<CHUNK_CLASSES. unat (preallocated_counts (mem_manager w') ! k)
            = (if k < n mod CHUNK_CLASSES then n div CHUNK_CLASSES + 1
               else n div CHUNK_CLASSES))
     \<and> (\<Sum>k<CHUNK_CLASSES. unat (preallocated_counts (mem_manager w') ! k)) = n
     \<and> (\<forall>i j. i \<le> j \<and> j < CHUNK_CLASSES \<longrightarrow>
            unat (preallocated_counts (mem_manager w') ! j)
              \<le> unat (preallocated_counts (mem_manager w') ! i)
          \<and> unat (preallocated_counts (mem_manager w') ! i)
              \<le> unat (preallocated_counts (mem_manager w') ! j) + 1)"
proof -
  let ?w = "initial_world h g"
  let ?c = "preallocated_counts (mem_manager w')"
  have z: "(0::nat) < CHUNK_CLASSES" by (simp add: CHUNK_CLASSES_def)
  have fits: "seeding_fits B (gp_alloc ?w)"
    using assms(1) by (simp add: initial_world_def)
  have loop: "preallocate_loop B 0 0 ?w = Inr (seeded, w')"
    using assms(2) by (simp add: preallocate_memory_def)
  from preallocate_loop_iterations [OF loop z _ seeding_fits_start [OF fits]]
  obtain n where n: "seed_iterations n 0 ?w = Inr w'"
    "unat seeded = (\<Sum>k<n. unat (chunk_sizes ! (k mod CHUNK_CLASSES)))"
    "unat (B * 2) < unat seeded + unat (chunk_sizes ! (n mod CHUNK_CLASSES))"
    by auto
  have log: "requests (gp_alloc w') = requests g
           @ map (\<lambda>k. chunk_sizes ! (k mod CHUNK_CLASSES)) [0..<n]"
    "replies (gp_alloc w') = drop n (replies g)"
    using seed_iterations_requests [OF n(1) z] by (simp_all add: initial_world_def)
  let ?r = "n mod CHUNK_CLASSES"
  let ?q = "n div CHUNK_CLASSES"
  have n62: "n < 4611686018427387904"
    using seeded_iterations_bound [OF n(2)] by simp
  have "?q \<le> n" by (rule div_le_dividend)
  with n62 have "?q + 1 < 18446744073709551616" by linarith
  then have q64: "?q + 1 < 2 ^ 64" by simp
  have init: "preallocated_counts (mem_manager ?w) = replicate CHUNK_CLASSES 0"
    by (simp add: initial_world_def mem_manager_init_def)
  from seed_iterations_counts [OF n(1) init] have c: "length ?c = CHUNK_CLASSES"
    "\<And>k. k < CHUNK_CLASSES \<Longrightarrow> ?c ! k = of_nat (if k < ?r then ?q + 1 else ?q)"
    by blast+
  have val: "unat (?c ! k) = (if k < ?r then ?q + 1 else ?q)"
    if k: "k < CHUNK_CLASSES" for k
  proof -
    have "(if k < ?r then ?q + 1 else ?q) < 2 ^ 64" using q64 by simp
    then have "unat (of_nat (if k < ?r then ?q + 1 else ?q) :: size_t)
        = (if k < ?r then ?q + 1 else ?q)"
      by (simp add: unat_of_nat)
    then show ?thesis using c(2) [OF k] by simp
  qed
  have stop: "?r \<le> CHUNK_CLASSES" using z by (simp add: less_imp_le)
  have "(\<Sum>k<CHUNK_CLASSES. unat (?c ! k))
      = (\<Sum>k<CHUNK_CLASSES. if k < ?r then ?q + 1 else ?q)"
    by (rule sum.cong) (simp_all add: val)
  also have "\<dots> = CHUNK_CLASSES * ?q + ?r"
    by (rule sum_round_robin [OF stop])
  also have "\<dots> = n" by simp
  finally have total: "(\<Sum>k<CHUNK_CLASSES. unat (?c ! k)) = n" .
  have mono: "unat (?c ! j) \<le> unat (?c ! i) \<and> unat (?c ! i) \<le> unat (?c ! j) + 1"
    if "i \<le> j \<and> j < CHUNK_CLASSES" for i j
    using that val [of i] val [of j] by (auto split: if_splits)
  show ?thesis using n log c(1) val total mono by blast
qed

theorem seeder_balance_witness:
  "seeding_fits 40 example_backing
   \<and> (\<exists>w'. preallocate_memory 40 (initial_world zeroed_memory example_backing) = Inr (60, w')
     \<and> preallocated_counts (mem_manager w') = [1, 1, 1, 1, 0, 0, 0, 0, 0, 0, 0, 0, 0, 0]
     \<and> (\<exists>n.
       seed_iterations n 0 (initial_world zeroed_memory example_backing) = Inr w'
     \<and> requests (gp_alloc w') = requests example_backing
           @ map (\<lambda>k. chunk_sizes ! (k mod CHUNK_CLASSES)) [0..<n]
     \<and> replies (gp_alloc w') = drop n (replies example_backing)
     \<and> unat (60::size_t) = (\<Sum>k<n. unat (chunk_sizes ! (k mod CHUNK_CLASSES)))
     \<and> unat (40 * 2 :: size_t) < unat (60::size_t) + unat (chunk_sizes ! (n mod CHUNK_CLASSES))
     \<and> length (preallocated_counts (mem_manager w')) = CHUNK_CLASSES
     \<and> (\<forall>k<CHUNK_CLASSES. unat (preallocated_counts (mem_manager w') ! k)
            = (if k < n mod CHUNK_CLASSES then n div CHUNK_CLASSES + 1
               else n div CHUNK_CLASSES))
     \<and> (\<Sum>k<CHUNK_CLASSES. unat (preallocated_counts (mem_manager w') ! k)) = n
     \<and> (\<forall>i j. i \<le> j \<and> j < CHUNK_CLASSES \<longrightarrow>
            unat (preallocated_counts (mem_manager w') ! j)
              \<le> unat (preallocated_counts (mem_manager w') ! i)
          \<and> unat (preallocated_counts (mem_manager w') ! i)
              \<le> unat (preallocated_counts (mem_manager w') ! j) + 1)))"
proof -
  let ?W = "\<lparr>mem_manager =
          \<lparr>free_list = [4096, 8192, 12288, 16384, 0, 0, 0, 0, 0, 0, 0, 0, 0, 0],
           preallocated_counts = [1, 1, 1, 1, 0, 0, 0, 0, 0, 0, 0, 0, 0, 0]\<rparr>,
        memory = store_ptr (store_ptr (store_ptr (store_ptr zeroed_memory 4096 0) 8192 0)
                   12288 0) 16384 0,
        gp_alloc = \<lparr>replies = [20480, 24576], requests = [4, 8, 16, 32 :: size_t]\<rparr>\<rparr>"
  have fits: "seeding_fits 40 example_backing"
    by (simp add: seeding_fits_def)
  have run: "preallocate_memory 40 (initial_world zeroed_memory example_backing) = Inr (60, ?W)"
    using seed_40_example by (simp add: example_world_def)
  have counts: "preallocated_counts (mem_manager ?W) = [1, 1, 1, 1, 0, 0, 0, 0, 0, 0, 0, 0, 0, 0]"
    by simp
  note main = seeder_balance [OF fits run]
  from fits run counts main show ?thesis by blast
qed

subsection \<open>Evaluation of sequences of calls on the example state\<close>







subsection \<open>LIFO reuse\<close>





subsection \<open>No cross-class leakage\<close>




















end
